theory Spec2Isabelle
  imports Main
begin

section \<open>Result algebra and status tracker of \<^verbatim>\<open>parseUtil.ts\<close>\<close>

text \<open>
  The three status strings \<^verbatim>\<open>"valid"\<close>, \<^verbatim>\<open>"dirty"\<close> and \<^verbatim>\<open>"aborted"\<close>.
\<close>

datatype status = valid | dirty | aborted

text \<open>
  \<^verbatim>\<open>class ParseStatus { value = "valid"; dirty() {...}; abort() {...} }\<close>.
  The object is mutated in place by its methods; here each method takes the object and
  returns the object after the call.
\<close>

record ParseStatus =
  "value" :: status

definition new_ParseStatus :: ParseStatus where
  "new_ParseStatus = \<lparr>ParseStatus.value = valid\<rparr>"

definition ParseStatus_dirty :: "ParseStatus \<Rightarrow> ParseStatus" where
  "ParseStatus_dirty this =
     (if ParseStatus.value this = valid then this\<lparr>ParseStatus.value := dirty\<rparr> else this)"

definition ParseStatus_abort :: "ParseStatus \<Rightarrow> ParseStatus" where
  "ParseStatus_abort this =
     (if ParseStatus.value this \<noteq> aborted then this\<lparr>ParseStatus.value := aborted\<rparr> else this)"

text \<open>A call of one of the two methods, and a sequence of such calls on one tracker.\<close>

datatype method_call = Call_dirty | Call_abort

fun call :: "ParseStatus \<Rightarrow> method_call \<Rightarrow> ParseStatus" where
  "call this Call_dirty = ParseStatus_dirty this"
| "call this Call_abort = ParseStatus_abort this"

definition calls :: "method_call list \<Rightarrow> ParseStatus \<Rightarrow> ParseStatus" where
  "calls cs this = foldl call this cs"

text \<open>The position of a status in the order valid, dirty, aborted.\<close>

fun rank :: "status \<Rightarrow> nat" where
  "rank valid = 0"
| "rank dirty = 1"
| "rank aborted = 2"

text \<open>
  \<^verbatim>\<open>SyncParseReturnType<T> = OK<T> | DIRTY<T> | INVALID\<close>. \<open>INVALID\<close> is the frozen object
  \<^verbatim>\<open>{ status: "aborted" }\<close>, which has no \<^verbatim>\<open>value\<close> property; every other result is an
  object \<^verbatim>\<open>{ status, value }\<close>. The mergers build their result as
  \<^verbatim>\<open>{ status: status.value, value: ... }\<close> from the tracker, so a result with a value can
  carry any of the three statuses.
\<close>

datatype 'a SyncParseReturnType = INVALID | Result status 'a

definition DIRTY :: "'a \<Rightarrow> 'a SyncParseReturnType" where
  "DIRTY v = Result dirty v"

definition OK :: "'a \<Rightarrow> 'a SyncParseReturnType" where
  "OK v = Result valid v"

fun status_of :: "'a SyncParseReturnType \<Rightarrow> status" where
  "status_of INVALID = aborted"
| "status_of (Result s v) = s"

definition isAborted :: "'a SyncParseReturnType \<Rightarrow> bool" where
  "isAborted x = (status_of x = aborted)"

definition isDirty :: "'a SyncParseReturnType \<Rightarrow> bool" where
  "isDirty x = (status_of x = dirty)"

definition isValid :: "'a SyncParseReturnType \<Rightarrow> bool" where
  "isValid x = (status_of x = valid)"

section \<open>Array merger\<close>

text \<open>
  A loop of the mergers ends in one of two ways: by the \<^verbatim>\<open>return INVALID\<close> inside its body,
  or by running off the end of its input. Both carry the tracker as the loop has left it,
  since the tracker is the caller's object and keeps its changes after the call; the second
  also carries the loop's local variables.
\<close>

datatype 'acc loop_exit = Return_INVALID ParseStatus | Loop_done ParseStatus 'acc

text \<open>
  The test \<^verbatim>\<open>!strip || i < stripInvalidFrom\<close> with
  \<^verbatim>\<open>strip = typeof stripInvalidFrom === "number"\<close>. The optional number arguments are
  \<open>None\<close> when left out; they are an index and a length, hence integers. A comparison with
  a missing number is false.
\<close>

definition aborts_at :: "int option \<Rightarrow> nat \<Rightarrow> bool" where
  "aborts_at stripInvalidFrom i =
     (let strip = (stripInvalidFrom \<noteq> None)
      in \<not> strip \<or> (case stripInvalidFrom of None \<Rightarrow> False | Some n \<Rightarrow> int i < n))"

text \<open>
  The \<^verbatim>\<open>for (let i = 0; i < results.length; i++)\<close> loop of \<^verbatim>\<open>mergeArray\<close>, from index \<open>i\<close> on,
  over the results not yet visited. \<^verbatim>\<open>isAborted(s)\<close> holds of \<open>INVALID\<close> and of any other
  result whose status is aborted; \<^verbatim>\<open>s.value\<close> is read only of a result that is not aborted.
\<close>

fun mergeArray_loop ::
  "int option \<Rightarrow> nat \<Rightarrow> 'a SyncParseReturnType list \<Rightarrow> ParseStatus \<Rightarrow> 'a list \<Rightarrow> bool
     \<Rightarrow> ('a list \<times> bool) loop_exit"
where
  "mergeArray_loop stripInvalidFrom i [] status arrayValue stripped =
     Loop_done status (arrayValue, stripped)"
| "mergeArray_loop stripInvalidFrom i (INVALID # results) status arrayValue stripped =
     (if aborts_at stripInvalidFrom i then Return_INVALID status
      else mergeArray_loop stripInvalidFrom (Suc i) results (ParseStatus_dirty status)
             arrayValue True)"
| "mergeArray_loop stripInvalidFrom i (Result st v # results) status arrayValue stripped =
     (if st = aborted then
        (if aborts_at stripInvalidFrom i then Return_INVALID status
         else mergeArray_loop stripInvalidFrom (Suc i) results (ParseStatus_dirty status)
                arrayValue True)
      else mergeArray_loop stripInvalidFrom (Suc i) results
             (if st = dirty then ParseStatus_dirty status else status)
             (arrayValue @ [v]) stripped)"

text \<open>
  \<^verbatim>\<open>mergeArray(status, results, stripInvalidFrom?, minLength?)\<close> returns its result together
  with the tracker after the call. In \<^verbatim>\<open>stripped && minLength && arrayValue.length < minLength\<close>
  the middle operand is the truthiness of the number: a missing number and zero are not.
\<close>

definition mergeArray ::
  "ParseStatus \<Rightarrow> 'a SyncParseReturnType list \<Rightarrow> int option \<Rightarrow> int option
     \<Rightarrow> 'a list SyncParseReturnType \<times> ParseStatus"
where
  "mergeArray status results stripInvalidFrom minLength =
     (case mergeArray_loop stripInvalidFrom 0 results status [] False of
        Return_INVALID status' \<Rightarrow> (INVALID, status')
      | Loop_done status' (arrayValue, stripped) \<Rightarrow>
          if stripped
             \<and> (case minLength of None \<Rightarrow> False
                 | Some m \<Rightarrow> m \<noteq> 0 \<and> int (length arrayValue) < m)
          then (INVALID, status')
          else (Result (ParseStatus.value status') arrayValue, status'))"

text \<open>
  For the statements about \<open>mergeArray\<close>: the values of the results that are not aborted,
  in order, and the tracker after \<open>dirty()\<close> has been called if some result asks for it.
\<close>

fun kept :: "'a SyncParseReturnType list \<Rightarrow> 'a list" where
  "kept [] = []"
| "kept (INVALID # rs) = kept rs"
| "kept (Result st v # rs) = (if st = aborted then kept rs else v # kept rs)"

definition marked :: "'a SyncParseReturnType list \<Rightarrow> ParseStatus \<Rightarrow> ParseStatus" where
  "marked rs status =
     (if \<exists>x \<in> set rs. isAborted x \<or> isDirty x then ParseStatus_dirty status else status)"


section \<open>Object merger, synchronous\<close>

text \<open>
  The value a field validator hands back is any JavaScript value; the merger only asks
  whether it is \<^verbatim>\<open>undefined\<close>.
\<close>

datatype 'v jsvalue = Undefined | Defined 'v

text \<open>
  \<^verbatim>\<open>ObjectPair = { key, value }\<close>, and the element type of \<open>mergeObjectSync\<close>'s argument,
  which adds \<^verbatim>\<open>alwaysSet?: boolean\<close> (\<open>None\<close> when the property is missing). A record with
  more fields stands for an object with more properties, so an \<open>ObjectPair\<close> function
  accepts the extended record, as TypeScript's structural typing does.
\<close>

record ('k, 'v) ObjectPair =
  key :: 'k
  "value" :: 'v

record ('k, 'v) ObjectPairAlwaysSet = "('k, 'v) ObjectPair" +
  alwaysSet :: "bool option"

text \<open>
  The value of a key result is the property name, a string, as the object and record schemas
  produce it. The merged object is its own properties: a finite map from names to values.
\<close>

type_synonym 'v SyncPair =
  "(string SyncParseReturnType, 'v jsvalue SyncParseReturnType) ObjectPairAlwaysSet"

type_synonym 'v object = "string \<rightharpoonup> 'v jsvalue"

text \<open>
  The \<^verbatim>\<open>for (const pair of pairs)\<close> loop of \<open>mergeObjectSync\<close>: the two aborted checks in order,
  the two \<open>dirty()\<close> calls in order, then the guarded write
  \<^verbatim>\<open>finalObject[key.value] = value.value\<close>.
\<close>

fun mergeObjectSync_loop ::
  "'v SyncPair list \<Rightarrow> ParseStatus \<Rightarrow> 'v object \<Rightarrow> 'v object loop_exit"
where
  "mergeObjectSync_loop [] status finalObject = Loop_done status finalObject"
| "mergeObjectSync_loop (pair # pairs) status finalObject =
     (case key pair of
        INVALID \<Rightarrow> Return_INVALID status
      | Result key_status key_value \<Rightarrow>
          if key_status = aborted then Return_INVALID status
          else
            (case value pair of
               INVALID \<Rightarrow> Return_INVALID status
             | Result value_status value_value \<Rightarrow>
                 if value_status = aborted then Return_INVALID status
                 else
                   mergeObjectSync_loop pairs
                     (let status1 = (if key_status = dirty then ParseStatus_dirty status else status)
                      in if value_status = dirty then ParseStatus_dirty status1 else status1)
                     (if key_value \<noteq> ''__proto__''
                         \<and> (value_value \<noteq> Undefined \<or> alwaysSet pair = Some True)
                      then finalObject(key_value \<mapsto> value_value)
                      else finalObject)))"

definition mergeObjectSync ::
  "ParseStatus \<Rightarrow> 'v SyncPair list \<Rightarrow> 'v object SyncParseReturnType \<times> ParseStatus"
where
  "mergeObjectSync status pairs =
     (case mergeObjectSync_loop pairs status Map.empty of
        Return_INVALID status' \<Rightarrow> (INVALID, status')
      | Loop_done status' finalObject \<Rightarrow>
          (Result (ParseStatus.value status') finalObject, status'))"

text \<open>
  For the statements about \<open>mergeObjectSync\<close>: a pair one of whose sides is aborted, or
  dirty; the property a pair that is not aborted writes, if any; the object after the
  writes of a list of pairs; the tracker after their \<open>dirty()\<close> calls; a pair whose key
  is \<^verbatim>\<open>"__proto__"\<close>.
\<close>

definition pair_failed :: "'v SyncPair \<Rightarrow> bool" where
  "pair_failed pair = (isAborted (key pair) \<or> isAborted (value pair))"

definition pair_dirty :: "'v SyncPair \<Rightarrow> bool" where
  "pair_dirty pair = (isDirty (key pair) \<or> isDirty (value pair))"

definition written :: "'v SyncPair \<Rightarrow> (string \<times> 'v jsvalue) option" where
  "written pair =
     (case (key pair, value pair) of
        (Result ks kv, Result vs vv) \<Rightarrow>
          if kv \<noteq> ''__proto__'' \<and> (vv \<noteq> Undefined \<or> alwaysSet pair = Some True)
          then Some (kv, vv) else None
      | _ \<Rightarrow> None)"

definition write_pair :: "'v SyncPair \<Rightarrow> 'v object \<Rightarrow> 'v object" where
  "write_pair pair obj = (case written pair of None \<Rightarrow> obj | Some (k, v) \<Rightarrow> obj(k \<mapsto> v))"

definition assembled :: "'v SyncPair list \<Rightarrow> 'v object \<Rightarrow> 'v object" where
  "assembled pairs obj = foldl (\<lambda>obj pair. write_pair pair obj) obj pairs"

definition marked_pairs :: "'v SyncPair list \<Rightarrow> ParseStatus \<Rightarrow> ParseStatus" where
  "marked_pairs pairs status =
     (if \<exists>pair \<in> set pairs. pair_dirty pair then ParseStatus_dirty status else status)"

definition has_proto_key :: "'v SyncPair \<Rightarrow> bool" where
  "has_proto_key pair =
     (case key pair of INVALID \<Rightarrow> False | Result ks kv \<Rightarrow> kv = ''__proto__'')"


section \<open>Object merger, asynchronous\<close>

text \<open>
  A promise is given by how it settles: fulfilled with a value, rejected with a reason, or
  never. \<^verbatim>\<open>ParseReturnType<T>\<close> is a result or a promise of one, and \<^verbatim>\<open>await\<close> of a value
  that is no promise continues with that value.
\<close>

datatype 'a Promise = Fulfilled 'a | Rejected string | Pending

datatype 'a ParseReturnType =
  Sync "'a SyncParseReturnType" | Async "'a SyncParseReturnType Promise"

fun await :: "'a ParseReturnType \<Rightarrow> 'a SyncParseReturnType Promise" where
  "await (Sync x) = Fulfilled x"
| "await (Async promise) = promise"

text \<open>
  The declared element type of \<open>mergeObjectAsync\<close>'s argument is \<^verbatim>\<open>{ key, value }\<close>; an
  element may have further properties, which the function does not read.
\<close>

type_synonym ('v, 'z) AsyncPair =
  "(string ParseReturnType, 'v jsvalue ParseReturnType, 'z) ObjectPair_scheme"

text \<open>
  The loop of \<open>mergeObjectAsync\<close>. An \<^verbatim>\<open>await\<close> of a rejected promise throws, which rejects
  the promise the async function has returned; an \<^verbatim>\<open>await\<close> of a promise that never settles
  never resumes. The object pushed is \<^verbatim>\<open>{ key, value }\<close>, so it has no \<open>alwaysSet\<close>.
\<close>

fun mergeObjectAsync_loop ::
  "('v, 'z) AsyncPair list \<Rightarrow> 'v SyncPair list \<Rightarrow> 'v SyncPair list Promise"
where
  "mergeObjectAsync_loop [] syncPairs = Fulfilled syncPairs"
| "mergeObjectAsync_loop (pair # pairs) syncPairs =
     (case await (key pair) of
        Rejected reason \<Rightarrow> Rejected reason
      | Pending \<Rightarrow> Pending
      | Fulfilled key' \<Rightarrow>
          (case await (value pair) of
             Rejected reason \<Rightarrow> Rejected reason
           | Pending \<Rightarrow> Pending
           | Fulfilled value' \<Rightarrow>
               mergeObjectAsync_loop pairs
                 (syncPairs @ [\<lparr>key = key', value = value', alwaysSet = None\<rparr>])))"

definition mergeObjectAsync ::
  "ParseStatus \<Rightarrow> ('v, 'z) AsyncPair list
     \<Rightarrow> 'v object SyncParseReturnType Promise \<times> ParseStatus"
where
  "mergeObjectAsync status pairs =
     (case mergeObjectAsync_loop pairs [] of
        Rejected reason \<Rightarrow> (Rejected reason, status)
      | Pending \<Rightarrow> (Pending, status)
      | Fulfilled syncPairs \<Rightarrow>
          (case mergeObjectSync status syncPairs of
             (result, status') \<Rightarrow> (Fulfilled result, status')))"

text \<open>
  For the statements about \<open>mergeObjectAsync\<close>: a pair both of whose sides are fulfilled,
  with the results a triple holds, and a triple with its \<open>alwaysSet\<close> taken away.
\<close>

definition resolves_to :: "('v, 'z) AsyncPair \<Rightarrow> 'v SyncPair \<Rightarrow> bool" where
  "resolves_to pair triple =
     (await (key pair) = Fulfilled (key triple) \<and> await (value pair) = Fulfilled (value triple))"

definition without_alwaysSet :: "'v SyncPair \<Rightarrow> 'v SyncPair" where
  "without_alwaysSet triple = triple\<lparr>alwaysSet := None\<rparr>"


section \<open>Issue factory\<close>

text \<open>\<^verbatim>\<open>ParsePathComponent = string | number\<close>.\<close>

datatype ParsePathComponent = Key string | Index int

type_synonym ParsePath = "ParsePathComponent list"

text \<open>
  An issue is an object with a \<open>path\<close>, a \<open>message\<close> and whatever else its kind needs (the
  code, expected and received types, ...), which the spread \<^verbatim>\<open>...issueData\<close> copies and which
  is the extension of the record here. Raw issue data has an optional path and an optional
  message; the issue given to an error map has the full path; a finished issue has both.
\<close>

record ('p, 'm) Issue =
  path :: 'p
  message :: 'm

type_synonym 'z IssueData = "(ParsePath option, string option, 'z) Issue_scheme"

type_synonym 'z FullIssue = "(ParsePath, string option, 'z) Issue_scheme"

type_synonym 'z ZodIssue = "(ParsePath, string, 'z) Issue_scheme"

text \<open>
  \<^verbatim>\<open>ZodErrorMap = (issue, { data, defaultError }) => { message }\<close>. An error map is code of the
  caller: what it does besides returning its message is a change of a state \<open>'w\<close> that each
  call receives and hands on, so that the calls made and their order can be told. A pure
  error map returns the state it was given.
\<close>

type_synonym ('d, 'z, 'w) ZodErrorMap = "'z FullIssue \<Rightarrow> 'd \<Rightarrow> string \<Rightarrow> 'w \<Rightarrow> string \<times> 'w"

text \<open>The loop \<^verbatim>\<open>for (const map of maps) errorMessage = map(fullIssue, {...}).message\<close>.\<close>

fun makeIssue_loop ::
  "('d, 'z, 'w) ZodErrorMap list \<Rightarrow> 'z FullIssue \<Rightarrow> 'd \<Rightarrow> string \<Rightarrow> 'w \<Rightarrow> string \<times> 'w"
where
  "makeIssue_loop [] fullIssue data errorMessage w = (errorMessage, w)"
| "makeIssue_loop (errorMap # maps) fullIssue data errorMessage w =
     (case errorMap fullIssue data errorMessage w of
        (message', w') \<Rightarrow> makeIssue_loop maps fullIssue data message' w')"

text \<open>
  The argument object of \<open>makeIssue\<close>. An entry of \<open>errorMaps\<close> may be \<^verbatim>\<open>undefined\<close>, which
  \<^verbatim>\<open>.filter((m) => !!m)\<close> removes.
\<close>

record ('d, 'z, 'w) makeIssue_params =
  data :: 'd
  path :: ParsePath
  errorMaps :: "('d, 'z, 'w) ZodErrorMap option list"
  issueData :: "'z IssueData"

definition makeIssue :: "('d, 'z, 'w) makeIssue_params \<Rightarrow> 'w \<Rightarrow> 'z ZodIssue \<times> 'w" where
  "makeIssue params w =
     (let data = makeIssue_params.data params;
          path = makeIssue_params.path params;
          errorMaps = makeIssue_params.errorMaps params;
          issueData = makeIssue_params.issueData params;
          fullPath = path @ (case Issue.path issueData of None \<Rightarrow> [] | Some suffix \<Rightarrow> suffix);
          fullIssue = \<lparr>Issue.path = fullPath, message = message issueData,
                       \<dots> = Issue.more issueData\<rparr>
      in case message issueData of
           Some explicit \<Rightarrow>
             (\<lparr>Issue.path = fullPath, message = explicit, \<dots> = Issue.more issueData\<rparr>, w)
         | None \<Rightarrow>
             (let maps = rev (List.map_filter id errorMaps)
              in case makeIssue_loop maps fullIssue data '''' w of
                   (errorMessage, w') \<Rightarrow>
                     (\<lparr>Issue.path = fullPath, message = errorMessage,
                       \<dots> = Issue.more issueData\<rparr>, w')))"

text \<open>
  \<^verbatim>\<open>ParseContext\<close>, with the fields the functions here read or write. The list
  \<open>ctx.common.issues\<close> is shared by all contexts of a run; appending to it is returned as
  the context with the longer list.
\<close>

record ('d, 'z, 'w) ParseContext_common =
  issues :: "'z ZodIssue list"
  contextualErrorMap :: "('d, 'z, 'w) ZodErrorMap option"
  async :: bool
  strict :: bool

record ('d, 'z, 'w) ParseContext =
  common :: "('d, 'z, 'w) ParseContext_common"
  path :: ParsePath
  schemaErrorMap :: "('d, 'z, 'w) ZodErrorMap option"
  data :: 'd

text \<open>
  \<open>addIssueToContext\<close>. It reads two things of other modules, \<^verbatim>\<open>getErrorMap()\<close> of
  \<^verbatim>\<open>errors.ts\<close> and \<^verbatim>\<open>defaultErrorMap\<close> of \<^verbatim>\<open>locales/en.ts\<close>; both are arguments here.
  The first is the process-wide override map if one is installed, and \<open>None\<close> if none
  is: then \<^verbatim>\<open>getErrorMap()\<close> returns the default map itself and the comparison of the two
  function objects, \<^verbatim>\<open>overrideMap === defaultErrorMap\<close>, holds. The second is the default
  map.
\<close>

definition addIssueToContext ::
  "('d, 'z, 'w) ZodErrorMap option \<Rightarrow> ('d, 'z, 'w) ZodErrorMap
     \<Rightarrow> ('d, 'z, 'w) ParseContext \<Rightarrow> 'z IssueData \<Rightarrow> 'w
     \<Rightarrow> ('d, 'z, 'w) ParseContext \<times> 'w"
where
  "addIssueToContext installedOverride defaultErrorMap ctx issue_data w =
     (let overrideMap = (case installedOverride of None \<Rightarrow> defaultErrorMap | Some m \<Rightarrow> m)
      in case makeIssue
                \<lparr>makeIssue_params.data = ParseContext.data ctx,
                 path = ParseContext.path ctx,
                 errorMaps =
                   map Some
                     (List.map_filter id
                        [contextualErrorMap (common ctx),
                         schemaErrorMap ctx,
                         Some overrideMap,
                         (case installedOverride of None \<Rightarrow> None
                          | Some m \<Rightarrow> Some defaultErrorMap)]),
                 issueData = issue_data\<rparr> w
         of (issue, w') \<Rightarrow>
              (ctx\<lparr>common := (common ctx)\<lparr>issues := issues (common ctx) @ [issue]\<rparr>\<rparr>, w'))"

text \<open>
  For the statements about the issue factory. \<open>resolveMessage\<close> follows the description of
  the resolution, not the code: the policies are listed highest priority first, a policy
  that is not installed is passed over, and an installed one is given, as its default, the
  message the policies below it have produced (the empty string when there are none).
\<close>

fun resolveMessage ::
  "('d, 'z, 'w) ZodErrorMap option list \<Rightarrow> 'z FullIssue \<Rightarrow> 'd \<Rightarrow> 'w \<Rightarrow> string \<times> 'w"
where
  "resolveMessage [] issue d w = ('''', w)"
| "resolveMessage (None # lower) issue d w = resolveMessage lower issue d w"
| "resolveMessage (Some policy # lower) issue d w =
     (case resolveMessage lower issue d w of
        (defaultError, w') \<Rightarrow> policy issue d defaultError w')"

definition full_path :: "ParsePath \<Rightarrow> 'z IssueData \<Rightarrow> ParsePath" where
  "full_path p i = p @ (case Issue.path i of None \<Rightarrow> [] | Some suffix \<Rightarrow> suffix)"

definition full_issue :: "ParsePath \<Rightarrow> 'z IssueData \<Rightarrow> 'z FullIssue" where
  "full_issue p i =
     \<lparr>Issue.path = full_path p i, message = message i, \<dots> = Issue.more i\<rparr>"

definition with_message :: "ParsePath \<Rightarrow> 'z IssueData \<Rightarrow> string \<Rightarrow> 'z ZodIssue" where
  "with_message p i msg =
     \<lparr>Issue.path = full_path p i, message = msg, \<dots> = Issue.more i\<rparr>"

definition push_issue ::
  "('d, 'z, 'w) ParseContext \<Rightarrow> 'z ZodIssue \<Rightarrow> ('d, 'z, 'w) ParseContext" where
  "push_issue ctx issue = ctx\<lparr>common := (common ctx)\<lparr>issues := issues (common ctx) @ [issue]\<rparr>\<rparr>"


text \<open>The equations that evaluate the functions above on a given input.\<close>

lemmas eval_simps =
  mergeObjectSync_def mergeObjectSync_loop.simps(2) mergeArray_def
  OK_def DIRTY_def new_ParseStatus_def ParseStatus_dirty_def
  isAborted_def isDirty_def pair_failed_def pair_dirty_def written_def


section \<open>The status tracker only moves forward\<close>

lemma ParseStatus_dirty_value:
  "ParseStatus.value (ParseStatus_dirty s) =
     (if ParseStatus.value s = valid then dirty else ParseStatus.value s)"
  by (simp add: ParseStatus_dirty_def)

lemma ParseStatus_abort_value: "ParseStatus.value (ParseStatus_abort s) = aborted"
  by (simp add: ParseStatus_abort_def)

lemma ParseStatus_dirty_noop:
  "ParseStatus.value s \<noteq> valid \<Longrightarrow> ParseStatus_dirty s = s"
  by (simp add: ParseStatus_dirty_def)

lemma ParseStatus_dirty_idem: "ParseStatus_dirty (ParseStatus_dirty s) = ParseStatus_dirty s"
  by (simp add: ParseStatus_dirty_def)

lemma ParseStatus_abort_idem: "ParseStatus_abort (ParseStatus_abort s) = ParseStatus_abort s"
  by (simp add: ParseStatus_abort_def)

lemma rank_call: "rank (ParseStatus.value s) \<le> rank (ParseStatus.value (call s c))"
  by (cases c; cases "ParseStatus.value s")
     (simp_all add: ParseStatus_dirty_def ParseStatus_abort_def)

lemma rank_calls: "rank (ParseStatus.value s) \<le> rank (ParseStatus.value (calls cs s))"
  unfolding calls_def
proof (induction cs arbitrary: s)
  case Nil
  show ?case by simp
next
  case (Cons c cs)
  have "rank (ParseStatus.value s) \<le> rank (ParseStatus.value (call s c))"
    by (rule rank_call)
  also have "\<dots> \<le> rank (ParseStatus.value (foldl call (call s c) cs))"
    by (rule Cons.IH)
  finally show ?case by simp
qed

lemma calls_append: "calls (cs @ ds) s = calls ds (calls cs s)"
  by (simp add: calls_def)

lemma aborted_stays: "ParseStatus.value s = aborted \<Longrightarrow> ParseStatus.value (calls cs s) = aborted"
proof -
  assume a: "ParseStatus.value s = aborted"
  have "rank (ParseStatus.value s) \<le> rank (ParseStatus.value (calls cs s))"
    by (rule rank_calls)
  with a show ?thesis by (cases "ParseStatus.value (calls cs s)") simp_all
qed

lemma calls_with_abort:
  "Call_abort \<in> set cs \<Longrightarrow> ParseStatus.value (calls cs s) = aborted"
proof -
  assume "Call_abort \<in> set cs"
  then obtain pre post where cs: "cs = pre @ Call_abort # post"
    by (auto simp: in_set_conv_decomp)
  have "ParseStatus.value (calls [Call_abort] (calls pre s)) = aborted"
    by (simp add: calls_def ParseStatus_abort_value)
  then have "ParseStatus.value (calls post (calls [Call_abort] (calls pre s))) = aborted"
    by (rule aborted_stays)
  then show ?thesis
    by (simp add: cs calls_def)
qed

text \<open>
  C9. The tracker is monotone along valid, dirty, aborted: \<open>dirty()\<close> takes valid to dirty
  and changes nothing on a dirty or aborted tracker; \<open>abort()\<close> takes every state to
  aborted and a second call changes nothing; no sequence of calls lowers the status; and
  after any sequence of calls that contains \<open>abort()\<close> the status is aborted, whatever
  \<open>dirty()\<close> calls follow.
\<close>

theorem C9_tracker_monotone:
  "(ParseStatus.value s = valid \<longrightarrow> ParseStatus.value (ParseStatus_dirty s) = dirty)
   \<and> (ParseStatus.value s \<noteq> valid \<longrightarrow> ParseStatus_dirty s = s)
   \<and> ParseStatus.value (ParseStatus_abort s) = aborted
   \<and> ParseStatus_abort (ParseStatus_abort s) = ParseStatus_abort s
   \<and> rank (ParseStatus.value s) \<le> rank (ParseStatus.value (calls cs s))
   \<and> (Call_abort \<in> set cs \<longrightarrow> ParseStatus.value (calls cs s) = aborted)
   \<and> (Call_abort \<in> set cs \<longrightarrow> ParseStatus_dirty (calls cs s) = calls cs s)"
proof -
  have "Call_abort \<in> set cs \<Longrightarrow> ParseStatus_dirty (calls cs s) = calls cs s"
    by (rule ParseStatus_dirty_noop) (simp add: calls_with_abort)
  then show ?thesis
    by (simp add: ParseStatus_dirty_value ParseStatus_dirty_noop ParseStatus_abort_value
        ParseStatus_abort_idem rank_calls calls_with_abort)
qed

theorem C9_tracker_monotone_witness:
  "ParseStatus.value (ParseStatus_dirty new_ParseStatus) = dirty
   \<and> ParseStatus_dirty (ParseStatus_abort new_ParseStatus) = ParseStatus_abort new_ParseStatus
   \<and> ParseStatus.value (calls [Call_dirty, Call_abort, Call_dirty] new_ParseStatus) = aborted
   \<and> ParseStatus_dirty (calls [Call_dirty, Call_abort, Call_dirty] new_ParseStatus)
       = calls [Call_dirty, Call_abort, Call_dirty] new_ParseStatus"
  using C9_tracker_monotone [of new_ParseStatus "[Call_dirty, Call_abort, Call_dirty]"]
    C9_tracker_monotone [of "ParseStatus_abort new_ParseStatus" "[]"]
  by (simp add: new_ParseStatus_def ParseStatus_abort_def)


section \<open>The predicates on results\<close>

text \<open>
  C2, as amended. \<open>isValid\<close> holds of a result exactly when its status is valid: it
  holds of an ok result and fails of a partial (dirty) result and of the failed result. It
  is not the test for a usable value, which a dirty result has as well.
\<close>

theorem C2_isValid_only_ok:
  "isValid (OK v) \<and> \<not> isValid (DIRTY v) \<and> \<not> isValid INVALID
   \<and> (isValid x \<longleftrightarrow> \<not> isDirty x \<and> \<not> isAborted x)"
  by (cases "status_of x") (simp_all add: isValid_def isDirty_def isAborted_def OK_def DIRTY_def)

text \<open>
  The statement that \<open>isValid\<close> holds of ok and of partial results and fails of the
  failed result is false of the partial result \<^verbatim>\<open>DIRTY(1)\<close>.
\<close>

theorem C2_isValid_partial_counterexample:
  "\<not> (isValid (OK (1::nat)) \<and> isValid (DIRTY (1::nat))
      \<and> \<not> isValid (INVALID :: nat SyncParseReturnType))"
  by (simp add: isValid_def DIRTY_def)


section \<open>The array merger stops at a failure or strips it\<close>

lemma kept_append: "kept (xs @ ys) = kept xs @ kept ys"
  by (induction xs rule: kept.induct) simp_all

lemma marked_Nil: "marked [] st = st"
  by (simp add: marked_def)

lemma marked_Cons:
  "marked (s # rs) st = marked rs (if isAborted s \<or> isDirty s then ParseStatus_dirty st else st)"
  by (auto simp: marked_def ParseStatus_dirty_idem)

lemma aborts_at_mono: "aborts_at k i \<Longrightarrow> j \<le> i \<Longrightarrow> aborts_at k j"
  by (auto simp: aborts_at_def split: option.splits)

lemma mergeArray_loop_done:
  "(\<And>j. j < length rs \<Longrightarrow> isAborted (rs ! j) \<Longrightarrow> \<not> aborts_at k (i + j)) \<Longrightarrow>
   mergeArray_loop k i rs st arr b =
     Loop_done (marked rs st) (arr @ kept rs, b \<or> (\<exists>x \<in> set rs. isAborted x))"
proof (induction rs arbitrary: i st arr b)
  case Nil
  show ?case by (simp add: marked_Nil)
next
  case (Cons s rs)
  have here: "isAborted s \<Longrightarrow> \<not> aborts_at k i"
    using Cons.prems [of 0] by simp
  have later: "\<And>j. j < length rs \<Longrightarrow> isAborted (rs ! j) \<Longrightarrow> \<not> aborts_at k (Suc i + j)"
    using Cons.prems [of "Suc j" for j] by simp
  have IH: "mergeArray_loop k (Suc i) rs st' arr' b' =
      Loop_done (marked rs st') (arr' @ kept rs, b' \<or> (\<exists>x \<in> set rs. isAborted x))"
    for st' arr' b'
    by (rule Cons.IH) (rule later)
  show ?case
  proof (cases s)
    case INVALID
    with here show ?thesis
      by (simp add: IH marked_Cons isAborted_def)
  next
    case (Result t v)
    with here show ?thesis
      by (simp add: IH marked_Cons isAborted_def isDirty_def)
  qed
qed

lemma mergeArray_loop_abort:
  "j < length rs \<Longrightarrow> isAborted (rs ! j) \<Longrightarrow> aborts_at k (i + j) \<Longrightarrow>
   \<exists>st'. mergeArray_loop k i rs st arr b = Return_INVALID st'"
proof (induction rs arbitrary: i j st arr b)
  case Nil
  then show ?case by simp
next
  case (Cons s rs)
  show ?case
  proof (cases j)
    case 0
    with Cons.prems show ?thesis by (cases s) (simp_all add: isAborted_def)
  next
    case (Suc j')
    with Cons.prems have "j' < length rs" "isAborted (rs ! j')" "aborts_at k (Suc i + j')"
      by simp_all
    then have "\<exists>st'. mergeArray_loop k (Suc i) rs st'' arr'' b'' = Return_INVALID st'"
      for st'' arr'' b''
      by (rule Cons.IH)
    then show ?thesis by (cases s) simp_all
  qed
qed

lemma mergeArray_loop_append:
  "mergeArray_loop k i (pre @ rest) st arr b =
     (case mergeArray_loop k i pre st arr b of
        Return_INVALID st' \<Rightarrow> Return_INVALID st'
      | Loop_done st' (arr', b') \<Rightarrow> mergeArray_loop k (i + length pre) rest st' arr' b')"
proof (induction pre arbitrary: i st arr b)
  case Nil
  show ?case by simp
next
  case (Cons s pre)
  show ?case by (cases s) (simp_all add: Cons.IH split: loop_exit.split prod.split)
qed

lemma mergeArray_completed:
  assumes "\<And>j. j < length rs \<Longrightarrow> isAborted (rs ! j) \<Longrightarrow> \<not> aborts_at k j"
  shows "mergeArray st rs k m =
    (if (\<exists>x \<in> set rs. isAborted x) \<and> (\<exists>n. m = Some n \<and> int (length (kept rs)) < n)
     then INVALID else Result (ParseStatus.value (marked rs st)) (kept rs),
     marked rs st)"
proof -
  have "mergeArray_loop k 0 rs st [] False =
      Loop_done (marked rs st) ([] @ kept rs, False \<or> (\<exists>x \<in> set rs. isAborted x))"
    by (rule mergeArray_loop_done) (simp add: assms)
  then show ?thesis
    by (cases m) (auto simp: mergeArray_def)
qed

lemma mergeArray_aborting:
  assumes "i < length rs" and "isAborted (rs ! i)" and "aborts_at k i"
  shows "\<exists>st'. \<forall>later m. mergeArray st (take (Suc i) rs @ later) k m = (INVALID, st')"
proof -
  from assms have "\<exists>st'. mergeArray_loop k 0 (take (Suc i) rs) st [] False = Return_INVALID st'"
    by (intro mergeArray_loop_abort [where j = i]) simp_all
  then obtain st' where "mergeArray_loop k 0 (take (Suc i) rs) st [] False = Return_INVALID st'"
    by blast
  then have "mergeArray st (take (Suc i) rs @ later) k m = (INVALID, st')" for later m
    by (simp add: mergeArray_def mergeArray_loop_append)
  then show ?thesis by blast
qed

lemma kept_aborted: "isAborted x \<Longrightarrow> kept [x] = []"
  by (cases x) (simp_all add: isAborted_def)

lemma kept_without:
  assumes "i < length rs" and "isAborted (rs ! i)"
  shows "kept rs = kept (take i rs @ drop (Suc i) rs)"
proof -
  from assms(1) have "rs = take i rs @ [rs ! i] @ drop (Suc i) rs"
    by (simp add: id_take_nth_drop)
  then have "kept rs = kept (take i rs) @ kept [rs ! i] @ kept (drop (Suc i) rs)"
    by (metis kept_append)
  with assms(2) show ?thesis
    by (simp add: kept_append kept_aborted)
qed

lemma length_kept: "length (kept rs) = length (filter (\<lambda>x. \<not> isAborted x) rs)"
  by (induction rs rule: kept.induct) (simp_all add: isAborted_def)

lemma marked_aborted: "\<exists>x \<in> set rs. isAborted x \<Longrightarrow> marked rs st = ParseStatus_dirty st"
  by (auto simp: marked_def)

lemma marked_no_aborted:
  "\<forall>x \<in> set rs. \<not> isAborted x \<Longrightarrow>
   marked rs st = (if \<exists>x \<in> set rs. isDirty x then ParseStatus_dirty st else st)"
  by (auto simp: marked_def)

lemma mergeArray_short_circuit:
  assumes "\<forall>x \<in> set pre. \<not> isAborted x" and "isAborted s" and "aborts_at k (length pre)"
  shows "mergeArray st (pre @ s # post) k m = (INVALID, marked pre st)"
proof -
  have "mergeArray_loop k 0 pre st [] False =
      Loop_done (marked pre st) ([] @ kept pre, False \<or> (\<exists>x \<in> set pre. isAborted x))"
    using assms(1) by (intro mergeArray_loop_done) simp
  moreover have "mergeArray_loop k (length pre) (s # post) st' arr b = Return_INVALID st'"
    for st' arr b
    using assms(2,3) by (cases s) (simp_all add: isAborted_def)
  ultimately show ?thesis
    by (simp add: mergeArray_def mergeArray_loop_append)
qed

lemma mergeArray_tracker_no_aborted:
  assumes "\<forall>x \<in> set pre. \<not> isAborted x"
  shows "snd (mergeArray st pre k m) = marked pre st"
proof -
  have "\<And>j. j < length pre \<Longrightarrow> isAborted (pre ! j) \<Longrightarrow> \<not> aborts_at k j"
    using assms by simp
  then show ?thesis
    by (simp add: mergeArray_completed)
qed

text \<open>
  C4. A failed element at index \<open>i\<close>, with stripping disabled or with \<open>i\<close> before
  \<open>stripInvalidFrom\<close>, makes \<open>mergeArray\<close> return \<open>INVALID\<close>, whatever elements follow
  index \<open>i\<close>. When stripping is enabled and every failed element stands at or after
  \<open>stripInvalidFrom\<close>, a failed element at index \<open>i\<close> has \<open>dirty()\<close> called on the tracker
  and is left out of the assembled sequence, which holds the values of the elements that
  have not failed and nothing else: it is the sequence assembled from the input without
  element \<open>i\<close>.
\<close>

theorem C4_mergeArray_failed_element:
  "(i < length results \<and> isAborted (results ! i)
      \<and> (stripInvalidFrom = None \<or> (\<exists>n. stripInvalidFrom = Some n \<and> int i < n))
    \<longrightarrow> fst (mergeArray status results stripInvalidFrom minLength) = INVALID
        \<and> fst (mergeArray status (take (Suc i) results @ later) stripInvalidFrom minLength')
            = INVALID)
   \<and> (i < length results \<and> isAborted (results ! i)
      \<and> (\<exists>n. stripInvalidFrom = Some n
            \<and> (\<forall>j < length results. isAborted (results ! j) \<longrightarrow> n \<le> int j))
    \<longrightarrow> snd (mergeArray status results stripInvalidFrom minLength) = ParseStatus_dirty status
        \<and> fst (mergeArray status results stripInvalidFrom minLength) =
            (if \<exists>m. minLength = Some m \<and> int (length (kept results)) < m then INVALID
             else Result (ParseStatus.value (ParseStatus_dirty status)) (kept results))
        \<and> kept results = kept (take i results @ drop (Suc i) results)
        \<and> length (kept results) = length (filter (\<lambda>x. \<not> isAborted x) results))"
proof (intro conjI impI)
  assume a: "i < length results \<and> isAborted (results ! i)
      \<and> (stripInvalidFrom = None \<or> (\<exists>n. stripInvalidFrom = Some n \<and> int i < n))"
  then have ab: "aborts_at stripInvalidFrom i"
    by (auto simp: aborts_at_def)
  from a ab obtain st' where
    st': "\<And>later m. mergeArray status (take (Suc i) results @ later) stripInvalidFrom m = (INVALID, st')"
    using mergeArray_aborting [of i results stripInvalidFrom status] by blast
  from st' [of "drop (Suc i) results" minLength]
  show "fst (mergeArray status results stripInvalidFrom minLength) = INVALID"
    by simp
  from st' [of later minLength']
  show "fst (mergeArray status (take (Suc i) results @ later) stripInvalidFrom minLength') = INVALID"
    by simp
next
  assume a: "i < length results \<and> isAborted (results ! i)
      \<and> (\<exists>n. stripInvalidFrom = Some n
            \<and> (\<forall>j < length results. isAborted (results ! j) \<longrightarrow> n \<le> int j))"
  then have no: "\<And>j. j < length results \<Longrightarrow> isAborted (results ! j)
      \<Longrightarrow> \<not> aborts_at stripInvalidFrom j"
    by (auto simp: aborts_at_def)
  from a have ex: "\<exists>x \<in> set results. isAborted x"
    by (metis nth_mem)
  note eq = mergeArray_completed [of results stripInvalidFrom status minLength, OF no]
  show "snd (mergeArray status results stripInvalidFrom minLength) = ParseStatus_dirty status"
    by (simp add: eq marked_aborted [OF ex])
  show "fst (mergeArray status results stripInvalidFrom minLength) =
            (if \<exists>m. minLength = Some m \<and> int (length (kept results)) < m then INVALID
             else Result (ParseStatus.value (ParseStatus_dirty status)) (kept results))"
    using ex by (simp add: eq marked_aborted [OF ex])
  from a show "kept results = kept (take i results @ drop (Suc i) results)"
    by (intro kept_without) simp_all
  show "length (kept results) = length (filter (\<lambda>x. \<not> isAborted x) results)"
    by (rule length_kept)
qed

theorem C4_mergeArray_failed_element_witness:
  "fst (mergeArray new_ParseStatus [OK (1::nat), INVALID, DIRTY 3] (Some 2) None) = INVALID
   \<and> fst (mergeArray new_ParseStatus ([OK (1::nat), INVALID] @ [OK 7, OK 8]) None None) = INVALID
   \<and> mergeArray new_ParseStatus [OK (1::nat), INVALID, OK 3] (Some 1) None
        = (Result dirty [1, 3], \<lparr>ParseStatus.value = dirty\<rparr>)
   \<and> fst (mergeArray new_ParseStatus [OK (1::nat), INVALID, OK 3] (Some 1) (Some 3)) = INVALID"
  using C4_mergeArray_failed_element
          [of 1 "[OK (1::nat), INVALID, DIRTY 3]" "Some 2" new_ParseStatus None "[]" None]
        C4_mergeArray_failed_element
          [of 1 "[OK (1::nat), INVALID, DIRTY 3]" None new_ParseStatus None "[OK 7, OK 8]" None]
        C4_mergeArray_failed_element
          [of 1 "[OK (1::nat), INVALID, OK 3]" "Some 1" new_ParseStatus None "[]" None]
        C4_mergeArray_failed_element
          [of 1 "[OK (1::nat), INVALID, OK 3]" "Some 1" new_ParseStatus "Some 3" "[]" None]
  by (simp add: isAborted_def OK_def DIRTY_def new_ParseStatus_def ParseStatus_dirty_def
      All_less_Suc prod_eq_iff)

text \<open>
  C5. When the loop of \<open>mergeArray\<close> has run to its end: if an element was stripped,
  \<open>minLength\<close> is given and the assembled sequence is shorter than \<open>minLength\<close>, the
  result is \<open>INVALID\<close>; otherwise the result carries the tracker's final status and the
  assembled sequence. The first part states this of the loop's own variables, the second
  of the input: an element was stripped when some element has failed, and the assembled
  sequence is the values of the others.
\<close>

theorem C5_mergeArray_minLength:
  "(mergeArray_loop stripInvalidFrom 0 results status [] False
        = Loop_done status' (arrayValue, stripped)
    \<longrightarrow> mergeArray status results stripInvalidFrom minLength =
          (if stripped \<and> (\<exists>m. minLength = Some m \<and> int (length arrayValue) < m) then INVALID
           else Result (ParseStatus.value status') arrayValue, status'))
   \<and> ((\<forall>j < length results. isAborted (results ! j)
          \<longrightarrow> (\<exists>n. stripInvalidFrom = Some n \<and> n \<le> int j))
    \<longrightarrow> fst (mergeArray status results stripInvalidFrom minLength) =
          (if (\<exists>x \<in> set results. isAborted x)
              \<and> (\<exists>m. minLength = Some m \<and> int (length (kept results)) < m)
           then INVALID
           else Result (ParseStatus.value (snd (mergeArray status results stripInvalidFrom minLength)))
                  (kept results)))"
proof (intro conjI impI)
  assume "mergeArray_loop stripInvalidFrom 0 results status [] False
        = Loop_done status' (arrayValue, stripped)"
  then show "mergeArray status results stripInvalidFrom minLength =
          (if stripped \<and> (\<exists>m. minLength = Some m \<and> int (length arrayValue) < m) then INVALID
           else Result (ParseStatus.value status') arrayValue, status')"
    by (cases minLength) (auto simp: mergeArray_def)
next
  assume a: "\<forall>j < length results. isAborted (results ! j)
          \<longrightarrow> (\<exists>n. stripInvalidFrom = Some n \<and> n \<le> int j)"
  then have no: "\<And>j. j < length results \<Longrightarrow> isAborted (results ! j)
      \<Longrightarrow> \<not> aborts_at stripInvalidFrom j"
    by (auto simp: aborts_at_def)
  note eq = mergeArray_completed [of results stripInvalidFrom status minLength, OF no]
  show "fst (mergeArray status results stripInvalidFrom minLength) =
          (if (\<exists>x \<in> set results. isAborted x)
              \<and> (\<exists>m. minLength = Some m \<and> int (length (kept results)) < m)
           then INVALID
           else Result (ParseStatus.value (snd (mergeArray status results stripInvalidFrom minLength)))
                  (kept results))"
    by (simp only: eq fst_conv snd_conv)
qed

theorem C5_mergeArray_minLength_witness:
  "fst (mergeArray new_ParseStatus [OK (1::nat), INVALID, OK 3] (Some 1) (Some 3)) = INVALID
   \<and> mergeArray new_ParseStatus [OK (1::nat), INVALID, OK 3] (Some 1) (Some 2)
        = (Result dirty [1, 3], \<lparr>ParseStatus.value = dirty\<rparr>)
   \<and> mergeArray new_ParseStatus [OK (1::nat), OK 3] (Some 1) (Some 5)
        = (Result valid [1, 3], \<lparr>ParseStatus.value = valid\<rparr>)
   \<and> mergeArray new_ParseStatus [OK (1::nat), INVALID, OK 3] (Some 1) None
        = (Result dirty [1, 3], \<lparr>ParseStatus.value = dirty\<rparr>)"
  using C5_mergeArray_minLength
          [of "Some 1" "[OK (1::nat), INVALID, OK 3]" new_ParseStatus
              "\<lparr>ParseStatus.value = dirty\<rparr>" "[1, 3]" True "Some 3"]
        C5_mergeArray_minLength
          [of "Some 1" "[OK (1::nat), INVALID, OK 3]" new_ParseStatus
              "\<lparr>ParseStatus.value = dirty\<rparr>" "[1, 3]" True "Some 2"]
        C5_mergeArray_minLength
          [of "Some 1" "[OK (1::nat), OK 3]" new_ParseStatus
              "\<lparr>ParseStatus.value = valid\<rparr>" "[1, 3]" False "Some 5"]
        C5_mergeArray_minLength
          [of "Some 1" "[OK (1::nat), INVALID, OK 3]" new_ParseStatus
              "\<lparr>ParseStatus.value = dirty\<rparr>" "[1, 3]" True None]
  by (simp add: isAborted_def OK_def DIRTY_def new_ParseStatus_def ParseStatus_dirty_def
      aborts_at_def)


section \<open>The object merger\<close>

lemma mergeObjectSync_loop_failed:
  "pair_failed pair \<Longrightarrow> mergeObjectSync_loop (pair # pairs) st obj = Return_INVALID st"
  by (cases "key pair"; cases "value pair")
     (auto simp: pair_failed_def isAborted_def)

lemma mergeObjectSync_loop_step:
  "\<not> pair_failed pair \<Longrightarrow>
   mergeObjectSync_loop (pair # pairs) st obj =
     mergeObjectSync_loop pairs (if pair_dirty pair then ParseStatus_dirty st else st)
       (write_pair pair obj)"
  by (cases "key pair"; cases "value pair")
     (auto simp: pair_failed_def pair_dirty_def isAborted_def isDirty_def write_pair_def
        written_def ParseStatus_dirty_idem Let_def)

declare mergeObjectSync_loop.simps(2) [simp del]

lemma marked_pairs_Nil: "marked_pairs [] st = st"
  by (simp add: marked_pairs_def)

lemma marked_pairs_Cons:
  "marked_pairs (p # ps) st = marked_pairs ps (if pair_dirty p then ParseStatus_dirty st else st)"
  by (auto simp: marked_pairs_def ParseStatus_dirty_idem)

lemma mergeObjectSync_loop_done:
  "\<forall>pair \<in> set pairs. \<not> pair_failed pair \<Longrightarrow>
   mergeObjectSync_loop pairs st obj = Loop_done (marked_pairs pairs st) (assembled pairs obj)"
proof (induction pairs arbitrary: st obj)
  case Nil
  show ?case by (simp add: marked_pairs_Nil assembled_def)
next
  case (Cons p ps)
  then have "\<not> pair_failed p" and rest: "\<forall>pair \<in> set ps. \<not> pair_failed pair"
    by simp_all
  then show ?case
    by (simp add: mergeObjectSync_loop_step Cons.IH [OF rest] marked_pairs_Cons assembled_def)
qed

lemma mergeObjectSync_loop_append:
  "mergeObjectSync_loop (pre @ rest) st obj =
     (case mergeObjectSync_loop pre st obj of
        Return_INVALID st' \<Rightarrow> Return_INVALID st'
      | Loop_done st' obj' \<Rightarrow> mergeObjectSync_loop rest st' obj')"
proof (induction pre arbitrary: st obj)
  case Nil
  show ?case by simp
next
  case (Cons p pre)
  show ?case
  proof (cases "pair_failed p")
    case True
    then show ?thesis
      by (simp add: mergeObjectSync_loop_failed)
  next
    case False
    then show ?thesis
      by (simp add: mergeObjectSync_loop_step Cons.IH)
  qed
qed

lemma mergeObjectSync_completed:
  "\<forall>pair \<in> set pairs. \<not> pair_failed pair \<Longrightarrow>
   mergeObjectSync st pairs =
     (Result (ParseStatus.value (marked_pairs pairs st)) (assembled pairs Map.empty),
      marked_pairs pairs st)"
  by (simp add: mergeObjectSync_def mergeObjectSync_loop_done)

lemma mergeObjectSync_short_circuit:
  "\<forall>pair \<in> set pre. \<not> pair_failed pair \<Longrightarrow> pair_failed p \<Longrightarrow>
   mergeObjectSync st (pre @ p # post) = (INVALID, marked_pairs pre st)"
  by (simp add: mergeObjectSync_def mergeObjectSync_loop_append mergeObjectSync_loop_done
      mergeObjectSync_loop_failed)

lemma first_failed:
  "\<exists>pair \<in> set pairs. pair_failed pair \<Longrightarrow>
   \<exists>pre p post. pairs = pre @ p # post \<and> pair_failed p \<and> (\<forall>q \<in> set pre. \<not> pair_failed q)"
  by (metis split_list_first_prop)

lemma mergeObjectSync_failed:
  assumes "\<exists>q \<in> set pairs. pair_failed q"
  shows "fst (mergeObjectSync st pairs) = INVALID"
proof -
  from first_failed [OF assms] obtain pre p post where
    "pairs = pre @ p # post" "pair_failed p" "\<forall>q \<in> set pre. \<not> pair_failed q"
    by blast
  then show ?thesis
    by (simp add: mergeObjectSync_short_circuit)
qed

lemma write_pair_proto: "obj ''__proto__'' = None \<Longrightarrow> write_pair pair obj ''__proto__'' = None"
  by (auto simp: write_pair_def written_def split: option.splits SyncParseReturnType.splits if_splits)

lemma assembled_proto: "obj ''__proto__'' = None \<Longrightarrow> assembled pairs obj ''__proto__'' = None"
  unfolding assembled_def
  by (induction pairs arbitrary: obj) (simp_all add: write_pair_proto)

lemma write_pair_has_proto_key: "has_proto_key pair \<Longrightarrow> write_pair pair obj = obj"
  by (auto simp: write_pair_def written_def has_proto_key_def
      split: option.splits SyncParseReturnType.splits if_splits)

lemma assembled_filter:
  "assembled (filter (\<lambda>p. \<not> has_proto_key p) pairs) obj = assembled pairs obj"
  unfolding assembled_def
  by (induction pairs arbitrary: obj) (simp_all add: write_pair_has_proto_key)

lemma dom_write_pair:
  "dom (write_pair p obj) = dom obj \<union> {k. \<exists>v. written p = Some (k, v)}"
  by (cases "written p") (auto simp: write_pair_def)

lemma dom_assembled:
  "dom (assembled pairs obj) = dom obj \<union> {k. \<exists>p \<in> set pairs. \<exists>v. written p = Some (k, v)}"
  unfolding assembled_def
proof (induction pairs arbitrary: obj)
  case Nil
  show ?case by simp
next
  case (Cons p ps)
  show ?case
    by (simp add: Cons.IH dom_write_pair) blast
qed

lemma assembled_snoc: "assembled (pairs @ [p]) obj = write_pair p (assembled pairs obj)"
  by (simp add: assembled_def)

lemma write_pair_eq:
  "key pair = Result ks k \<Longrightarrow> value pair = Result vs v \<Longrightarrow>
   write_pair pair obj =
     (if k = ''__proto__'' then obj
      else if v = Undefined
        then (if alwaysSet pair = Some True then obj(k \<mapsto> Undefined) else obj)
        else obj(k \<mapsto> v))"
  by (simp add: write_pair_def written_def)

text \<open>
  C1. Whenever \<open>mergeObjectSync\<close> returns an object, the object has no property named
  \<^verbatim>\<open>"__proto__"\<close>, and it is the object returned for the same pairs without those whose
  key is \<^verbatim>\<open>"__proto__"\<close>: such a pair leaves no trace in the object, whatever the status
  of its sides and whatever its \<open>alwaysSet\<close>.
\<close>

theorem C1_no_proto_property:
  "\<forall>s finalObject. fst (mergeObjectSync status pairs) = Result s finalObject
     \<longrightarrow> finalObject ''__proto__'' = None
       \<and> ''__proto__'' \<notin> dom finalObject
       \<and> (\<exists>s'. fst (mergeObjectSync status (filter (\<lambda>p. \<not> has_proto_key p) pairs))
                 = Result s' finalObject)"
proof (intro allI impI)
  fix s finalObject
  assume r: "fst (mergeObjectSync status pairs) = Result s finalObject"
  have none: "\<forall>q \<in> set pairs. \<not> pair_failed q"
  proof (rule ccontr)
    assume "\<not> (\<forall>q \<in> set pairs. \<not> pair_failed q)"
    then have "fst (mergeObjectSync status pairs) = INVALID"
      by (intro mergeObjectSync_failed) blast
    with r show False by simp
  qed
  then have obj: "finalObject = assembled pairs Map.empty"
    using r by (simp add: mergeObjectSync_completed)
  from none have "\<forall>q \<in> set (filter (\<lambda>p. \<not> has_proto_key p) pairs). \<not> pair_failed q"
    by simp
  then have filtered: "fst (mergeObjectSync status (filter (\<lambda>p. \<not> has_proto_key p) pairs))
      = Result (ParseStatus.value (marked_pairs (filter (\<lambda>p. \<not> has_proto_key p) pairs) status))
          finalObject"
    by (simp only: mergeObjectSync_completed fst_conv obj assembled_filter)
  have proto: "finalObject ''__proto__'' = None"
    by (simp add: obj assembled_proto)
  then have "''__proto__'' \<notin> dom finalObject"
    by (simp add: domIff)
  with proto filtered show "finalObject ''__proto__'' = None
       \<and> ''__proto__'' \<notin> dom finalObject
       \<and> (\<exists>s'. fst (mergeObjectSync status (filter (\<lambda>p. \<not> has_proto_key p) pairs))
                 = Result s' finalObject)"
    by blast
qed

theorem C1_no_proto_property_witness:
  "fst (mergeObjectSync new_ParseStatus
         [\<lparr>key = OK ''a'', value = OK (Defined (1::nat)), alwaysSet = None\<rparr>,
          \<lparr>key = DIRTY ''__proto__'', value = OK (Defined 2), alwaysSet = Some True\<rparr>])
     = Result dirty [''a'' \<mapsto> Defined 1]
   \<and> [''a'' \<mapsto> Defined (1::nat)] ''__proto__'' = None
   \<and> fst (mergeObjectSync new_ParseStatus
         [\<lparr>key = OK ''a'', value = OK (Defined (1::nat)), alwaysSet = None\<rparr>])
     = Result valid [''a'' \<mapsto> Defined 1]"
  using C1_no_proto_property [of new_ParseStatus
         "[\<lparr>key = OK ''a'', value = OK (Defined (1::nat)), alwaysSet = None\<rparr>,
          \<lparr>key = DIRTY ''__proto__'', value = OK (Defined 2), alwaysSet = Some True\<rparr>]"]
  by (simp add: eval_simps has_proto_key_def)

text \<open>
  C6. At the first pair whose key result or value result has failed, \<open>mergeObjectSync\<close>
  returns \<open>INVALID\<close>, and what it returns does not depend on the pairs after that one.
  If no pair has a failed side it does not return \<open>INVALID\<close>: it returns the assembled
  object with the status of the tracker. So it returns \<open>INVALID\<close> exactly when some pair
  has a failed side.
\<close>

theorem C6_mergeObjectSync_short_circuit:
  "((\<forall>q \<in> set pre. \<not> pair_failed q) \<and> pair_failed p
     \<longrightarrow> fst (mergeObjectSync status (pre @ p # post)) = INVALID
       \<and> mergeObjectSync status (pre @ p # post') = mergeObjectSync status (pre @ p # post))
   \<and> ((\<forall>q \<in> set pairs. \<not> pair_failed q)
     \<longrightarrow> fst (mergeObjectSync status pairs) \<noteq> INVALID
       \<and> fst (mergeObjectSync status pairs)
           = Result (ParseStatus.value (snd (mergeObjectSync status pairs)))
               (assembled pairs Map.empty))
   \<and> (fst (mergeObjectSync status pairs) = INVALID \<longleftrightarrow> (\<exists>q \<in> set pairs. pair_failed q))"
proof (intro conjI impI)
  assume a: "(\<forall>q \<in> set pre. \<not> pair_failed q) \<and> pair_failed p"
  then show "fst (mergeObjectSync status (pre @ p # post)) = INVALID"
    by (simp add: mergeObjectSync_short_circuit)
  from a show "mergeObjectSync status (pre @ p # post') = mergeObjectSync status (pre @ p # post)"
    by (simp add: mergeObjectSync_short_circuit)
next
  assume a: "\<forall>q \<in> set pairs. \<not> pair_failed q"
  then show "fst (mergeObjectSync status pairs) \<noteq> INVALID"
    by (simp add: mergeObjectSync_completed)
  from a show "fst (mergeObjectSync status pairs)
           = Result (ParseStatus.value (snd (mergeObjectSync status pairs)))
               (assembled pairs Map.empty)"
    by (simp add: mergeObjectSync_completed)
next
  show "fst (mergeObjectSync status pairs) = INVALID \<longleftrightarrow> (\<exists>q \<in> set pairs. pair_failed q)"
  proof
    assume r: "fst (mergeObjectSync status pairs) = INVALID"
    show "\<exists>q \<in> set pairs. pair_failed q"
    proof (rule ccontr)
      assume "\<not> (\<exists>q \<in> set pairs. pair_failed q)"
      then have "\<forall>q \<in> set pairs. \<not> pair_failed q" by blast
      then have "fst (mergeObjectSync status pairs) \<noteq> INVALID"
        by (simp add: mergeObjectSync_completed)
      with r show False by simp
    qed
  next
    assume "\<exists>q \<in> set pairs. pair_failed q"
    then show "fst (mergeObjectSync status pairs) = INVALID"
      by (rule mergeObjectSync_failed)
  qed
qed

theorem C6_mergeObjectSync_short_circuit_witness:
  "fst (mergeObjectSync new_ParseStatus
         ([\<lparr>key = OK ''a'', value = OK (Defined (1::nat)), alwaysSet = None\<rparr>]
          @ \<lparr>key = OK ''b'', value = INVALID, alwaysSet = None\<rparr>
          # [\<lparr>key = OK ''c'', value = OK (Defined 3), alwaysSet = None\<rparr>])) = INVALID
   \<and> fst (mergeObjectSync new_ParseStatus
         [\<lparr>key = OK ''a'', value = OK (Defined (1::nat)), alwaysSet = None\<rparr>,
          \<lparr>key = OK ''c'', value = DIRTY (Defined 3), alwaysSet = None\<rparr>])
       = Result dirty [''a'' \<mapsto> Defined 1, ''c'' \<mapsto> Defined 3]"
  using C6_mergeObjectSync_short_circuit
    [of "[\<lparr>key = OK ''a'', value = OK (Defined (1::nat)), alwaysSet = None\<rparr>]"
        "\<lparr>key = OK ''b'', value = INVALID, alwaysSet = None\<rparr>"
        new_ParseStatus
        "[\<lparr>key = OK ''c'', value = OK (Defined 3), alwaysSet = None\<rparr>]"
        "[]"
        "[\<lparr>key = OK ''a'', value = OK (Defined (1::nat)), alwaysSet = None\<rparr>,
          \<lparr>key = OK ''c'', value = DIRTY (Defined 3), alwaysSet = None\<rparr>]"]
  by (simp add: eval_simps assembled_def write_pair_def)

text \<open>
  The status of the returned object is the tracker's, so a tracker that is already aborted
  when the merge starts gives a result with status aborted that carries an object.
\<close>

lemma mergeObjectSync_status_of_tracker:
  assumes "\<forall>q \<in> set pairs. \<not> pair_failed q"
  shows "status_of (fst (mergeObjectSync st pairs))
           = ParseStatus.value (snd (mergeObjectSync st pairs))
         \<and> (isAborted (fst (mergeObjectSync st pairs)) \<longleftrightarrow> ParseStatus.value st = aborted)"
  using assms
  by (simp add: mergeObjectSync_completed isAborted_def marked_pairs_def ParseStatus_dirty_value)

text \<open>
  C7. For a pair neither of whose sides has failed, with key \<open>k\<close> and value \<open>v\<close>, taken
  after the pairs \<open>pre\<close>: if \<open>k\<close> is \<^verbatim>\<open>"__proto__"\<close> nothing is written; otherwise, if
  \<open>v\<close> is \<^verbatim>\<open>undefined\<close>, the key is written exactly when \<open>alwaysSet\<close> is true, and if \<open>v\<close> is
  not \<^verbatim>\<open>undefined\<close> the key is written. The keys of the returned object are those that
  some pair writes.
\<close>

theorem C7_alwaysSet:
  "((\<forall>q \<in> set pre. \<not> pair_failed q)
     \<and> key pair = Result ks k \<and> ks \<noteq> aborted \<and> value pair = Result vs v \<and> vs \<noteq> aborted
    \<longrightarrow> (\<exists>s0 s1 obj0 obj1.
          fst (mergeObjectSync status pre) = Result s0 obj0
          \<and> fst (mergeObjectSync status (pre @ [pair])) = Result s1 obj1
          \<and> obj1 =
              (if k = ''__proto__'' then obj0
               else if v = Undefined
                 then (if alwaysSet pair = Some True then obj0(k \<mapsto> Undefined) else obj0)
                 else obj0(k \<mapsto> v))
          \<and> (k \<in> dom obj1 \<longleftrightarrow>
                k \<in> dom obj0
                \<or> k \<noteq> ''__proto__'' \<and> (v \<noteq> Undefined \<or> alwaysSet pair = Some True))))
   \<and> ((\<forall>q \<in> set pairs. \<not> pair_failed q)
    \<longrightarrow> (\<exists>s obj. fst (mergeObjectSync status pairs) = Result s obj
          \<and> dom obj = {k'. \<exists>q \<in> set pairs. \<exists>v'. written q = Some (k', v')}))"
proof (intro conjI impI)
  assume a: "(\<forall>q \<in> set pre. \<not> pair_failed q)
     \<and> key pair = Result ks k \<and> ks \<noteq> aborted \<and> value pair = Result vs v \<and> vs \<noteq> aborted"
  then have nf: "\<not> pair_failed pair"
    by (simp add: pair_failed_def isAborted_def)
  with a have all: "\<forall>q \<in> set (pre @ [pair]). \<not> pair_failed q"
    by simp
  define obj0 where "obj0 = assembled pre Map.empty"
  define obj1 where "obj1 = assembled (pre @ [pair]) Map.empty"
  have step: "obj1 =
      (if k = ''__proto__'' then obj0
       else if v = Undefined
         then (if alwaysSet pair = Some True then obj0(k \<mapsto> Undefined) else obj0)
         else obj0(k \<mapsto> v))"
    using a unfolding obj0_def obj1_def assembled_snoc
    by (intro write_pair_eq) simp_all
  have r0: "fst (mergeObjectSync status pre) = Result (ParseStatus.value (marked_pairs pre status)) obj0"
    using a by (simp add: mergeObjectSync_completed obj0_def)
  have r1: "fst (mergeObjectSync status (pre @ [pair]))
      = Result (ParseStatus.value (marked_pairs (pre @ [pair]) status)) obj1"
    using all by (simp only: mergeObjectSync_completed fst_conv obj1_def)
  have d: "k \<in> dom obj1 \<longleftrightarrow>
                k \<in> dom obj0
                \<or> k \<noteq> ''__proto__'' \<and> (v \<noteq> Undefined \<or> alwaysSet pair = Some True)"
    by (auto simp: step)
  from r0 r1 step d
  show "\<exists>s0 s1 obj0 obj1.
          fst (mergeObjectSync status pre) = Result s0 obj0
          \<and> fst (mergeObjectSync status (pre @ [pair])) = Result s1 obj1
          \<and> obj1 =
              (if k = ''__proto__'' then obj0
               else if v = Undefined
                 then (if alwaysSet pair = Some True then obj0(k \<mapsto> Undefined) else obj0)
                 else obj0(k \<mapsto> v))
          \<and> (k \<in> dom obj1 \<longleftrightarrow>
                k \<in> dom obj0
                \<or> k \<noteq> ''__proto__'' \<and> (v \<noteq> Undefined \<or> alwaysSet pair = Some True))"
    by blast
next
  assume "\<forall>q \<in> set pairs. \<not> pair_failed q"
  then show "\<exists>s obj. fst (mergeObjectSync status pairs) = Result s obj
          \<and> dom obj = {k'. \<exists>q \<in> set pairs. \<exists>v'. written q = Some (k', v')}"
    by (simp add: mergeObjectSync_completed dom_assembled)
qed

theorem C7_alwaysSet_witness:
  "fst (mergeObjectSync new_ParseStatus
         ([\<lparr>key = OK ''a'', value = OK (Defined (1::nat)), alwaysSet = None\<rparr>]
          @ [\<lparr>key = OK ''b'', value = OK Undefined, alwaysSet = Some True\<rparr>]))
     = Result valid [''a'' \<mapsto> Defined 1, ''b'' \<mapsto> Undefined]
   \<and> fst (mergeObjectSync new_ParseStatus
         ([\<lparr>key = OK ''a'', value = OK (Defined (1::nat)), alwaysSet = None\<rparr>]
          @ [\<lparr>key = OK ''b'', value = OK Undefined, alwaysSet = Some False\<rparr>]))
     = Result valid [''a'' \<mapsto> Defined 1]
   \<and> fst (mergeObjectSync new_ParseStatus
         ([\<lparr>key = OK ''a'', value = OK (Defined (1::nat)), alwaysSet = None\<rparr>]
          @ [\<lparr>key = OK ''b'', value = OK Undefined, alwaysSet = None\<rparr>]))
     = Result valid [''a'' \<mapsto> Defined 1]
   \<and> fst (mergeObjectSync new_ParseStatus
         ([\<lparr>key = OK ''a'', value = OK (Defined (1::nat)), alwaysSet = None\<rparr>]
          @ [\<lparr>key = OK ''b'', value = OK (Defined 2), alwaysSet = None\<rparr>]))
     = Result valid [''a'' \<mapsto> Defined 1, ''b'' \<mapsto> Defined 2]
   \<and> fst (mergeObjectSync new_ParseStatus
         [\<lparr>key = OK ''a'', value = OK (Defined (1::nat)), alwaysSet = None\<rparr>,
          \<lparr>key = OK ''b'', value = OK Undefined, alwaysSet = Some True\<rparr>,
          \<lparr>key = OK ''c'', value = OK Undefined, alwaysSet = None\<rparr>,
          \<lparr>key = OK ''__proto__'', value = OK (Defined 4), alwaysSet = Some True\<rparr>])
     = Result valid [''a'' \<mapsto> Defined 1, ''b'' \<mapsto> Undefined]
   \<and> dom [''a'' \<mapsto> Defined (1::nat), ''b'' \<mapsto> Undefined] = {''a'', ''b''}"
  using C7_alwaysSet
    [of "[\<lparr>key = OK ''a'', value = OK (Defined (1::nat)), alwaysSet = None\<rparr>]"
        "\<lparr>key = OK ''b'', value = OK Undefined, alwaysSet = Some True\<rparr>"
        valid "''b''" valid Undefined new_ParseStatus "[]"]
    C7_alwaysSet
    [of "[\<lparr>key = OK ''a'', value = OK (Defined (1::nat)), alwaysSet = None\<rparr>]"
        "\<lparr>key = OK ''b'', value = OK Undefined, alwaysSet = Some False\<rparr>"
        valid "''b''" valid Undefined new_ParseStatus "[]"]
    C7_alwaysSet
    [of "[\<lparr>key = OK ''a'', value = OK (Defined (1::nat)), alwaysSet = None\<rparr>]"
        "\<lparr>key = OK ''b'', value = OK Undefined, alwaysSet = None\<rparr>"
        valid "''b''" valid Undefined new_ParseStatus "[]"]
    C7_alwaysSet
    [of "[\<lparr>key = OK ''a'', value = OK (Defined (1::nat)), alwaysSet = None\<rparr>]"
        "\<lparr>key = OK ''b'', value = OK (Defined 2), alwaysSet = None\<rparr>"
        valid "''b''" valid "Defined 2" new_ParseStatus
        "[\<lparr>key = OK ''a'', value = OK (Defined (1::nat)), alwaysSet = None\<rparr>,
          \<lparr>key = OK ''b'', value = OK Undefined, alwaysSet = Some True\<rparr>,
          \<lparr>key = OK ''c'', value = OK Undefined, alwaysSet = None\<rparr>,
          \<lparr>key = OK ''__proto__'', value = OK (Defined 4), alwaysSet = Some True\<rparr>]"]
  by (simp add: eval_simps) auto

text \<open>
  C10. When \<open>mergeArray\<close> or \<open>mergeObjectSync\<close> returns \<open>INVALID\<close> at a failed child, the
  tracker it leaves is the tracker after the merge of the children before that one: the
  \<open>dirty()\<close> calls made for them stay, and a tracker that was valid before the call is
  dirty after it if one of them was dirty.
\<close>

theorem C10_tracker_not_rolled_back:
  "((\<forall>x \<in> set pre. \<not> isAborted x) \<and> isAborted s
      \<and> (stripInvalidFrom = None \<or> (\<exists>n. stripInvalidFrom = Some n \<and> int (length pre) < n))
     \<longrightarrow> mergeArray status (pre @ s # post) stripInvalidFrom minLength
           = (INVALID, snd (mergeArray status pre stripInvalidFrom minLength))
       \<and> snd (mergeArray status pre stripInvalidFrom minLength)
           = (if \<exists>x \<in> set pre. isDirty x then ParseStatus_dirty status else status))
   \<and> ((\<forall>q \<in> set qs. \<not> pair_failed q) \<and> pair_failed p
     \<longrightarrow> mergeObjectSync status (qs @ p # ps) = (INVALID, snd (mergeObjectSync status qs))
       \<and> snd (mergeObjectSync status qs)
           = (if \<exists>q \<in> set qs. pair_dirty q then ParseStatus_dirty status else status))"
proof (intro conjI impI)
  assume a: "(\<forall>x \<in> set pre. \<not> isAborted x) \<and> isAborted s
      \<and> (stripInvalidFrom = None \<or> (\<exists>n. stripInvalidFrom = Some n \<and> int (length pre) < n))"
  then have ab: "aborts_at stripInvalidFrom (length pre)"
    by (auto simp: aborts_at_def)
  from a ab show "mergeArray status (pre @ s # post) stripInvalidFrom minLength
           = (INVALID, snd (mergeArray status pre stripInvalidFrom minLength))"
    by (simp add: mergeArray_short_circuit mergeArray_tracker_no_aborted)
  from a show "snd (mergeArray status pre stripInvalidFrom minLength)
           = (if \<exists>x \<in> set pre. isDirty x then ParseStatus_dirty status else status)"
    by (simp add: mergeArray_tracker_no_aborted marked_no_aborted)
next
  assume a: "(\<forall>q \<in> set qs. \<not> pair_failed q) \<and> pair_failed p"
  then show "mergeObjectSync status (qs @ p # ps) = (INVALID, snd (mergeObjectSync status qs))"
    by (simp add: mergeObjectSync_short_circuit mergeObjectSync_completed)
  from a show "snd (mergeObjectSync status qs)
           = (if \<exists>q \<in> set qs. pair_dirty q then ParseStatus_dirty status else status)"
    by (simp add: mergeObjectSync_completed marked_pairs_def)
qed

theorem C10_tracker_not_rolled_back_witness:
  "mergeArray new_ParseStatus ([DIRTY (1::nat)] @ INVALID # [OK 3]) None None
     = (INVALID, \<lparr>ParseStatus.value = dirty\<rparr>)
   \<and> mergeObjectSync new_ParseStatus
        ([\<lparr>key = OK ''a'', value = DIRTY (Defined (1::nat)), alwaysSet = None\<rparr>]
          @ \<lparr>key = OK ''b'', value = INVALID, alwaysSet = None\<rparr>
          # [\<lparr>key = OK ''c'', value = OK (Defined 3), alwaysSet = None\<rparr>])
     = (INVALID, \<lparr>ParseStatus.value = dirty\<rparr>)
   \<and> \<lparr>ParseStatus.value = dirty\<rparr> \<noteq> new_ParseStatus"
  using C10_tracker_not_rolled_back
    [where pre = "[DIRTY (1::nat)]" and s = INVALID and stripInvalidFrom = None
       and post = "[OK 3]" and status = new_ParseStatus and minLength = None
       and qs = "[\<lparr>key = OK ''a'', value = DIRTY (Defined (1::nat)), alwaysSet = None\<rparr>]"
       and p = "\<lparr>key = OK ''b'', value = INVALID, alwaysSet = None\<rparr>"
       and ps = "[\<lparr>key = OK ''c'', value = OK (Defined 3), alwaysSet = None\<rparr>]"]
  by (simp add: eval_simps)


section \<open>The asynchronous object merger\<close>

lemma mergeObjectAsync_loop_resolved:
  "list_all2 resolves_to pairs triples \<Longrightarrow>
   mergeObjectAsync_loop pairs acc = Fulfilled (acc @ map without_alwaysSet triples)"
proof (induction pairs triples arbitrary: acc rule: list_all2_induct)
  case Nil
  show ?case by simp
next
  case (Cons p ps t ts)
  have "\<lparr>key = key t, value = value t, alwaysSet = None\<rparr> = without_alwaysSet t"
    by (simp add: without_alwaysSet_def)
  with Cons show ?case
    by (simp add: resolves_to_def)
qed

lemma mergeObjectAsync_loop_append:
  "list_all2 resolves_to pre triples \<Longrightarrow>
   mergeObjectAsync_loop (pre @ rest) acc =
     mergeObjectAsync_loop rest (acc @ map without_alwaysSet triples)"
proof (induction pre triples arbitrary: acc rule: list_all2_induct)
  case Nil
  show ?case by simp
next
  case (Cons p ps t ts)
  have "\<lparr>key = key t, value = value t, alwaysSet = None\<rparr> = without_alwaysSet t"
    by (simp add: without_alwaysSet_def)
  with Cons show ?case
    by (simp add: resolves_to_def)
qed

text \<open>
  C3, as amended. When the key and the value of every pair are fulfilled,
  \<open>mergeObjectAsync\<close> is fulfilled with what \<open>mergeObjectSync\<close> returns on the resolved
  pairs without any \<open>alwaysSet\<close>: the flag of a pair does not reach the synchronous
  algorithm. The pairs are awaited in order, the key of a pair before its value: at the
  first side that is rejected, or never settles, \<open>mergeObjectAsync\<close> is rejected for
  the same reason, or never settles, and the tracker is left as it was.
\<close>

theorem C3_mergeObjectAsync:
  "(list_all2 resolves_to pairs triples
     \<longrightarrow> mergeObjectAsync status pairs =
           (Fulfilled (fst (mergeObjectSync status (map without_alwaysSet triples))),
            snd (mergeObjectSync status (map without_alwaysSet triples))))
   \<and> (list_all2 resolves_to pre pre_triples
       \<and> (await (key p) = Rejected reason
          \<or> (\<exists>k. await (key p) = Fulfilled k) \<and> await (value p) = Rejected reason)
     \<longrightarrow> mergeObjectAsync status (pre @ p # post) = (Rejected reason, status))
   \<and> (list_all2 resolves_to pre pre_triples
       \<and> (await (key p) = Pending
          \<or> (\<exists>k. await (key p) = Fulfilled k) \<and> await (value p) = Pending)
     \<longrightarrow> mergeObjectAsync status (pre @ p # post) = (Pending, status))"
proof (intro conjI impI)
  assume "list_all2 resolves_to pairs triples"
  then have "mergeObjectAsync_loop pairs [] = Fulfilled ([] @ map without_alwaysSet triples)"
    by (rule mergeObjectAsync_loop_resolved)
  then show "mergeObjectAsync status pairs =
           (Fulfilled (fst (mergeObjectSync status (map without_alwaysSet triples))),
            snd (mergeObjectSync status (map without_alwaysSet triples)))"
    by (simp add: mergeObjectAsync_def split: prod.split)
next
  assume a: "list_all2 resolves_to pre pre_triples
       \<and> (await (key p) = Rejected reason
          \<or> (\<exists>k. await (key p) = Fulfilled k) \<and> await (value p) = Rejected reason)"
  then have pre: "list_all2 resolves_to pre pre_triples"
    by simp
  from a show "mergeObjectAsync status (pre @ p # post) = (Rejected reason, status)"
    by (auto simp: mergeObjectAsync_def mergeObjectAsync_loop_append [OF pre])
next
  assume a: "list_all2 resolves_to pre pre_triples
       \<and> (await (key p) = Pending
          \<or> (\<exists>k. await (key p) = Fulfilled k) \<and> await (value p) = Pending)"
  then have pre: "list_all2 resolves_to pre pre_triples"
    by simp
  from a show "mergeObjectAsync status (pre @ p # post) = (Pending, status)"
    by (auto simp: mergeObjectAsync_def mergeObjectAsync_loop_append [OF pre])
qed

theorem C3_mergeObjectAsync_witness:
  "mergeObjectAsync new_ParseStatus
     [\<lparr>key = Sync (OK ''a''), value = Async (Fulfilled (DIRTY (Defined (1::nat)))),
       alwaysSet = Some True\<rparr>,
      \<lparr>key = Async (Fulfilled (OK ''b'')), value = Sync (OK Undefined), alwaysSet = Some True\<rparr>]
     = (Fulfilled (Result dirty [''a'' \<mapsto> Defined 1]), \<lparr>ParseStatus.value = dirty\<rparr>)
   \<and> mergeObjectAsync new_ParseStatus
       ([\<lparr>key = Sync (OK ''a''), value = Async (Fulfilled (DIRTY (Defined (1::nat)))),
          alwaysSet = Some True\<rparr>]
        @ \<lparr>key = Async (Rejected ''key''), value = Async (Rejected ''value''), alwaysSet = None\<rparr>
        # [])
     = (Rejected ''key'', new_ParseStatus)
   \<and> mergeObjectAsync new_ParseStatus
       ([\<lparr>key = Sync (OK ''a''), value = Async (Fulfilled (DIRTY (Defined (1::nat)))),
          alwaysSet = Some True\<rparr>]
        @ \<lparr>key = Sync (OK ''b''), value = Async Pending, alwaysSet = None\<rparr>
        # [\<lparr>key = Sync (OK ''c''), value = Sync INVALID, alwaysSet = None\<rparr>])
     = (Pending, new_ParseStatus)"
  using C3_mergeObjectAsync
    [where pairs = "[\<lparr>key = Sync (OK ''a''), value = Async (Fulfilled (DIRTY (Defined (1::nat)))),
                      alwaysSet = Some True\<rparr>,
                     \<lparr>key = Async (Fulfilled (OK ''b'')), value = Sync (OK Undefined),
                      alwaysSet = Some True\<rparr>]"
       and triples = "[\<lparr>key = OK ''a'', value = DIRTY (Defined (1::nat)), alwaysSet = Some True\<rparr>,
                       \<lparr>key = OK ''b'', value = OK Undefined, alwaysSet = Some True\<rparr>]"
       and status = new_ParseStatus
       and pre = "[\<lparr>key = Sync (OK ''a''), value = Async (Fulfilled (DIRTY (Defined (1::nat)))),
                      alwaysSet = Some True\<rparr>]"
       and pre_triples = "[\<lparr>key = OK ''a'', value = DIRTY (Defined (1::nat)), alwaysSet = None\<rparr>]"
       and p = "\<lparr>key = Async (Rejected ''key''), value = Async (Rejected ''value''),
                 alwaysSet = None\<rparr>"
       and reason = "''key''" and post = "[]"]
    C3_mergeObjectAsync
    [where pairs = "[]" and triples = "[]" and status = new_ParseStatus
       and pre = "[\<lparr>key = Sync (OK ''a''), value = Async (Fulfilled (DIRTY (Defined (1::nat)))),
                      alwaysSet = Some True\<rparr>]"
       and pre_triples = "[\<lparr>key = OK ''a'', value = DIRTY (Defined (1::nat)), alwaysSet = None\<rparr>]"
       and p = "\<lparr>key = Sync (OK ''b''), value = Async Pending, alwaysSet = None\<rparr>"
       and reason = "''none''"
       and post = "[\<lparr>key = Sync (OK ''c''), value = Sync INVALID, alwaysSet = None\<rparr>]"]
  by (simp add: resolves_to_def without_alwaysSet_def eval_simps mergeObjectAsync_def)

text \<open>
  With \<open>alwaysSet\<close> passed through, the key \<^verbatim>\<open>a\<close> of the pair below, whose value is
  \<^verbatim>\<open>undefined\<close>, would be in the object; \<open>mergeObjectAsync\<close> returns the empty object.
\<close>

theorem C3_alwaysSet_counterexample:
  "fst (mergeObjectAsync new_ParseStatus
         [\<lparr>key = Sync (OK ''a''), value = Async (Fulfilled (OK (Undefined :: nat jsvalue))),
           alwaysSet = Some True\<rparr>])
     = Fulfilled (Result valid Map.empty)
   \<and> fst (mergeObjectSync new_ParseStatus
         [\<lparr>key = OK ''a'', value = OK (Undefined :: nat jsvalue), alwaysSet = Some True\<rparr>])
     = Result valid [''a'' \<mapsto> Undefined]
   \<and> fst (mergeObjectAsync new_ParseStatus
         [\<lparr>key = Sync (OK ''a''), value = Async (Fulfilled (OK (Undefined :: nat jsvalue))),
           alwaysSet = Some True\<rparr>])
     \<noteq> Fulfilled (fst (mergeObjectSync new_ParseStatus
         [\<lparr>key = OK ''a'', value = OK (Undefined :: nat jsvalue), alwaysSet = Some True\<rparr>]))"
  by (simp add: mergeObjectAsync_def eval_simps fun_eq_iff)


section \<open>Message resolution\<close>

lemma makeIssue_loop_snoc:
  "makeIssue_loop (maps @ [m]) i d e w =
     (case makeIssue_loop maps i d e w of (e', w') \<Rightarrow> m i d e' w')"
  by (induction maps arbitrary: e w) (simp_all split: prod.split)

lemma makeIssue_loop_resolve:
  "makeIssue_loop (rev (List.map_filter id ms)) i d '''' w = resolveMessage ms i d w"
proof (induction ms)
  case Nil
  show ?case by simp
next
  case (Cons m ms)
  then show ?case
    by (cases m) (simp_all add: makeIssue_loop_snoc)
qed

lemma makeIssue_explicit:
  "message i = Some m \<Longrightarrow>
   makeIssue \<lparr>makeIssue_params.data = d, path = p, errorMaps = ms, issueData = i\<rparr> w
     = (with_message p i m, w)"
  by (simp add: makeIssue_def with_message_def full_path_def)

lemma makeIssue_resolved:
  "message i = None \<Longrightarrow>
   makeIssue \<lparr>makeIssue_params.data = d, path = p, errorMaps = ms, issueData = i\<rparr> w =
     (case resolveMessage ms (full_issue p i) d w of
        (msg, w') \<Rightarrow> (with_message p i msg, w'))"
  by (simp add: makeIssue_def with_message_def full_path_def full_issue_def
      makeIssue_loop_resolve split: prod.split)

lemma addIssueToContext_makeIssue:
  "addIssueToContext ov dflt ctx i w =
     (case makeIssue
             \<lparr>makeIssue_params.data = ParseContext.data ctx, path = ParseContext.path ctx,
              errorMaps =
                map Some (List.map_filter id
                  [contextualErrorMap (common ctx), schemaErrorMap ctx,
                   Some (case ov of None \<Rightarrow> dflt | Some m \<Rightarrow> m),
                   (case ov of None \<Rightarrow> None | Some m \<Rightarrow> Some dflt)]),
              issueData = i\<rparr> w
      of (issue, w') \<Rightarrow> (push_issue ctx issue, w'))"
  by (simp only: addIssueToContext_def push_issue_def Let_def)

lemma resolveMessage_installed:
  "resolveMessage (map Some (List.map_filter id ms)) i d w = resolveMessage ms i d w"
proof (induction ms)
  case Nil
  show ?case by simp
next
  case (Cons m ms)
  then show ?case by (cases m) simp_all
qed

lemma resolveMessage_chain:
  "resolveMessage [c, s, Some (case ov of None \<Rightarrow> dflt | Some m \<Rightarrow> m),
                   (case ov of None \<Rightarrow> None | Some m \<Rightarrow> Some dflt)] i d w
   = resolveMessage [c, s, ov, Some dflt] i d w"
  by (cases ov; cases c; cases s) simp_all

text \<open>
  C8. If the raw issue data has a message, the issue built has that message and the state
  of the error maps is untouched: none is called. Otherwise the message is
  \<open>resolveMessage\<close> of the policies in priority order, for \<open>addIssueToContext\<close> the
  contextual, the schema-bound, the override and the default map: the lowest installed
  policy is called first, on the empty default, each higher one on the message of those
  below, and the message of the highest installed one is the issue's. With only a default
  policy \<open>P1\<close> and a contextual policy \<open>P2\<close>, the message is the one \<open>P2\<close> returns when
  its default is the one \<open>P1\<close> returns.
\<close>

theorem C8_message_resolution:
  "(message i = Some m
     \<longrightarrow> makeIssue \<lparr>makeIssue_params.data = d, path = p, errorMaps = ms, issueData = i\<rparr> w
           = (with_message p i m, w)
       \<and> addIssueToContext ov dflt ctx i w
           = (push_issue ctx (with_message (ParseContext.path ctx) i m), w))
   \<and> (message i = None
     \<longrightarrow> makeIssue \<lparr>makeIssue_params.data = d, path = p, errorMaps = ms, issueData = i\<rparr> w
           = (case resolveMessage ms (full_issue p i) d w of
                (msg, w') \<Rightarrow> (with_message p i msg, w'))
       \<and> addIssueToContext ov dflt ctx i w
           = (case resolveMessage
                     [contextualErrorMap (common ctx), schemaErrorMap ctx, ov, Some dflt]
                     (full_issue (ParseContext.path ctx) i) (ParseContext.data ctx) w of
                (msg, w') \<Rightarrow> (push_issue ctx (with_message (ParseContext.path ctx) i msg), w')))
   \<and> (message i = None \<and> contextualErrorMap (common ctx) = Some P2 \<and> schemaErrorMap ctx = None
     \<longrightarrow> addIssueToContext None P1 ctx i w
           = (case P1 (full_issue (ParseContext.path ctx) i) (ParseContext.data ctx) '''' w of
                (message1, w1) \<Rightarrow>
                  (case P2 (full_issue (ParseContext.path ctx) i) (ParseContext.data ctx)
                          message1 w1 of
                     (message2, w2) \<Rightarrow>
                       (push_issue ctx (with_message (ParseContext.path ctx) i message2), w2))))"
proof (intro conjI impI)
  assume e: "message i = Some m"
  then show "makeIssue \<lparr>makeIssue_params.data = d, path = p, errorMaps = ms, issueData = i\<rparr> w
           = (with_message p i m, w)"
    by (rule makeIssue_explicit)
  from e show "addIssueToContext ov dflt ctx i w
           = (push_issue ctx (with_message (ParseContext.path ctx) i m), w)"
    by (simp add: addIssueToContext_makeIssue makeIssue_explicit)
next
  assume n: "message i = None"
  then show "makeIssue \<lparr>makeIssue_params.data = d, path = p, errorMaps = ms, issueData = i\<rparr> w
           = (case resolveMessage ms (full_issue p i) d w of
                (msg, w') \<Rightarrow> (with_message p i msg, w'))"
    by (rule makeIssue_resolved)
  from n show "addIssueToContext ov dflt ctx i w
           = (case resolveMessage
                     [contextualErrorMap (common ctx), schemaErrorMap ctx, ov, Some dflt]
                     (full_issue (ParseContext.path ctx) i) (ParseContext.data ctx) w of
                (msg, w') \<Rightarrow> (push_issue ctx (with_message (ParseContext.path ctx) i msg), w'))"
    by (simp only: addIssueToContext_makeIssue makeIssue_resolved resolveMessage_installed
          resolveMessage_chain)
       (simp split: prod.split)
next
  assume a: "message i = None \<and> contextualErrorMap (common ctx) = Some P2
      \<and> schemaErrorMap ctx = None"
  then have "addIssueToContext None P1 ctx i w
      = (case resolveMessage [Some P2, None, None, Some P1]
                (full_issue (ParseContext.path ctx) i) (ParseContext.data ctx) w of
           (msg, w') \<Rightarrow> (push_issue ctx (with_message (ParseContext.path ctx) i msg), w'))"
    by (simp only: addIssueToContext_makeIssue makeIssue_resolved resolveMessage_installed
          resolveMessage_chain)
       (simp split: prod.split)
  then show "addIssueToContext None P1 ctx i w
           = (case P1 (full_issue (ParseContext.path ctx) i) (ParseContext.data ctx) '''' w of
                (message1, w1) \<Rightarrow>
                  (case P2 (full_issue (ParseContext.path ctx) i) (ParseContext.data ctx)
                          message1 w1 of
                     (message2, w2) \<Rightarrow>
                       (push_issue ctx (with_message (ParseContext.path ctx) i message2), w2)))"
    by (simp split: prod.split)
qed

theorem C8_message_resolution_witness:
  "addIssueToContext None
     (\<lambda>issue d defaultError w. (''Invalid input'', w @ [''default map got: '' @ defaultError]))
     \<lparr>common = \<lparr>issues = [],
                 contextualErrorMap =
                   Some (\<lambda>issue d defaultError w.
                           (''Custom, not '' @ defaultError,
                            w @ [''contextual map got: '' @ defaultError])),
                 async = False, strict = False\<rparr>,
      path = [Key ''a''], schemaErrorMap = None, data = (0::nat)\<rparr>
     \<lparr>Issue.path = Some [Index 1], message = None\<rparr>
     []
   = (\<lparr>common = \<lparr>issues = [\<lparr>Issue.path = [Key ''a'', Index 1],
                                message = ''Custom, not Invalid input''\<rparr>],
                   contextualErrorMap =
                     Some (\<lambda>issue d defaultError w.
                             (''Custom, not '' @ defaultError,
                              w @ [''contextual map got: '' @ defaultError])),
                   async = False, strict = False\<rparr>,
       path = [Key ''a''], schemaErrorMap = None, data = (0::nat)\<rparr>,
      [''default map got: '', ''contextual map got: Invalid input''])
   \<and> makeIssue
       \<lparr>makeIssue_params.data = (0::nat), path = [Key ''a''],
        errorMaps = [None, Some (\<lambda>issue d defaultError w. (''never'', w @ [''called'']))],
        issueData = \<lparr>Issue.path = None, message = Some ''explicit''\<rparr>\<rparr>
       []
     = (\<lparr>Issue.path = [Key ''a''], message = ''explicit''\<rparr>, [])"
  using C8_message_resolution
    [where i = "\<lparr>Issue.path = Some [Index 1], message = None\<rparr>"
       and ctx = "\<lparr>common = \<lparr>issues = [],
                 contextualErrorMap =
                   Some (\<lambda>issue d defaultError w.
                           (''Custom, not '' @ defaultError,
                            w @ [''contextual map got: '' @ defaultError])),
                 async = False, strict = False\<rparr>,
              path = [Key ''a''], schemaErrorMap = None, data = (0::nat)\<rparr>"
       and ?P1.0 = "\<lambda>issue d defaultError w.
                  (''Invalid input'', w @ [''default map got: '' @ defaultError])"
       and ?P2.0 = "\<lambda>issue d defaultError w.
                           (''Custom, not '' @ defaultError,
                            w @ [''contextual map got: '' @ defaultError])"
       and w = "[]" and m = "[]" and d = "0::nat" and p = "[]" and ms = "[]" and ov = None
       and dflt = "\<lambda>issue d defaultError w.
                  (''Invalid input'', w @ [''default map got: '' @ defaultError])"]
    C8_message_resolution
    [where i = "\<lparr>Issue.path = None, message = Some ''explicit''\<rparr>"
       and m = "''explicit''" and d = "0::nat" and p = "[Key ''a'']"
       and ms = "[None, Some (\<lambda>issue d defaultError w. (''never'', w @ [''called'']))]"
       and w = "[]" and ov = None
       and dflt = "\<lambda>issue d defaultError w. (''never'', w @ [''called''])"
       and ctx = "\<lparr>common = \<lparr>issues = [], contextualErrorMap = None,
                                async = False, strict = False\<rparr>,
                   path = [], schemaErrorMap = None, data = (0::nat)\<rparr>"
       and ?P1.0 = "\<lambda>issue d defaultError w. (''never'', w @ [''called''])"
       and ?P2.0 = "\<lambda>issue d defaultError w. (''never'', w @ [''called''])"]
  by (simp add: push_issue_def with_message_def full_path_def full_issue_def)


end
